theory Spec2Isabelle
  imports Main "HOL-Library.Word"
begin

unbundle bit_operations_syntax

section \<open>The TM1638 driver (TM1638.h, TM1638.c)\<close>

subsection \<open>Data model\<close>

type_synonym uint8_t = "8 word"
type_synonym uint16_t = "16 word"
type_synonym uint32_t = "32 word"

text \<open>
  A \<open>GPIO_TypeDef *\<close> is the address of a port's register block, 32 bits wide on the
  STM32F4 the driver is written for.
\<close>

type_synonym gpio_port = "32 word"

text \<open>The handle, \<open>struct TM1638\<close> of TM1638.h.\<close>

record TM1638 =
  clk_port :: gpio_port
  clk_pin :: uint16_t
  dio_port :: gpio_port
  dio_pin :: uint16_t
  stb_port :: gpio_port
  stb_pin :: uint16_t
  brightness :: uint8_t

subsection \<open>The HAL, as the driver sees it\<close>

text \<open>
  The driver reaches the hardware through four HAL functions only:
  \<open>HAL_GPIO_WritePin\<close>, \<open>HAL_GPIO_ReadPin\<close>, \<open>HAL_GPIO_Init\<close> and \<open>HAL_Delay\<close>.
  Each call is recorded, in order, with its arguments; the level a read returns is
  given by the environment: the \<open>n\<close>-th read of the run returns \<open>pin_in n\<close>.
\<close>

datatype GPIO_PinState = GPIO_PIN_RESET | GPIO_PIN_SET

datatype gpio_mode = GPIO_MODE_INPUT | GPIO_MODE_OUTPUT_PP

datatype gpio_pull = GPIO_NOPULL | GPIO_PULLUP

datatype hal_call =
    WritePin gpio_port uint16_t GPIO_PinState
  | ReadPin gpio_port uint16_t
  | InitPin gpio_port uint16_t gpio_mode gpio_pull
  | Delay nat

text \<open>
  The state the driver works on: the handle \<open>*tm\<close>, the calls made to the HAL so far
  (oldest first), the levels the environment presents to reads, and the number of
  reads made so far.
\<close>

record world =
  tm :: TM1638
  calls :: "hal_call list"
  pin_in :: "nat \<Rightarrow> GPIO_PinState"
  reads :: nat

definition HAL_GPIO_WritePin :: "gpio_port \<Rightarrow> uint16_t \<Rightarrow> GPIO_PinState \<Rightarrow> world \<Rightarrow> world" where
  "HAL_GPIO_WritePin port pin st w = w\<lparr>calls := calls w @ [WritePin port pin st]\<rparr>"

definition HAL_GPIO_ReadPin :: "gpio_port \<Rightarrow> uint16_t \<Rightarrow> world \<Rightarrow> GPIO_PinState \<times> world" where
  "HAL_GPIO_ReadPin port pin w =
     (pin_in w (reads w), w\<lparr>calls := calls w @ [ReadPin port pin], reads := Suc (reads w)\<rparr>)"

definition HAL_GPIO_Init :: "gpio_port \<Rightarrow> uint16_t \<Rightarrow> gpio_mode \<Rightarrow> gpio_pull \<Rightarrow> world \<Rightarrow> world" where
  "HAL_GPIO_Init port pin mode pull w = w\<lparr>calls := calls w @ [InitPin port pin mode pull]\<rparr>"

definition HAL_Delay :: "nat \<Rightarrow> world \<Rightarrow> world" where
  "HAL_Delay ms w = w\<lparr>calls := calls w @ [Delay ms]\<rparr>"

subsection \<open>Command constants\<close>

definition CMD_DATA_SET_AUTO_INC :: uint8_t where "CMD_DATA_SET_AUTO_INC = 0x40"
definition CMD_DATA_READ :: uint8_t where "CMD_DATA_READ = 0x42"
definition CMD_ADDRESS_SET :: uint8_t where "CMD_ADDRESS_SET = 0xC0"
definition CMD_DISPLAY_CTRL :: uint8_t where "CMD_DISPLAY_CTRL = 0x80"
definition DISPLAY_ON_MASK :: uint8_t where "DISPLAY_ON_MASK = 0x08"
definition DISPLAY_BRIGHTNESS_MASK :: uint8_t where "DISPLAY_BRIGHTNESS_MASK = 0x07"

subsection \<open>GPIO control\<close>

definition tm1638_sdo_high :: "world \<Rightarrow> world" where
  "tm1638_sdo_high w = HAL_GPIO_WritePin (dio_port (tm w)) (dio_pin (tm w)) GPIO_PIN_SET w"

definition tm1638_sdo_low :: "world \<Rightarrow> world" where
  "tm1638_sdo_low w = HAL_GPIO_WritePin (dio_port (tm w)) (dio_pin (tm w)) GPIO_PIN_RESET w"

definition tm1638_stb_high :: "world \<Rightarrow> world" where
  "tm1638_stb_high w = HAL_GPIO_WritePin (stb_port (tm w)) (stb_pin (tm w)) GPIO_PIN_SET w"

definition tm1638_stb_low :: "world \<Rightarrow> world" where
  "tm1638_stb_low w = HAL_GPIO_WritePin (stb_port (tm w)) (stb_pin (tm w)) GPIO_PIN_RESET w"

definition tm1638_clk_high :: "world \<Rightarrow> world" where
  "tm1638_clk_high w = HAL_GPIO_WritePin (clk_port (tm w)) (clk_pin (tm w)) GPIO_PIN_SET w"

definition tm1638_clk_low :: "world \<Rightarrow> world" where
  "tm1638_clk_low w = HAL_GPIO_WritePin (clk_port (tm w)) (clk_pin (tm w)) GPIO_PIN_RESET w"

subsection \<open>Communication protocol\<close>

definition tm1638_start_transmission :: "world \<Rightarrow> world" where
  "tm1638_start_transmission w = tm1638_stb_low w"

definition tm1638_end_transmission :: "world \<Rightarrow> world" where
  "tm1638_end_transmission w = tm1638_stb_high w"

text \<open>
  \<open>tm1638_send_data\<close>: the loop \<open>for (uint8_t i = 0; i < 8; i++)\<close>, with the loop
  variable and the byte being shifted out as arguments.
\<close>

function send_data_loop :: "nat \<Rightarrow> uint8_t \<Rightarrow> world \<Rightarrow> world" where
  "send_data_loop i data w =
     (if i < 8 then
        let w1 = tm1638_clk_low w;
            w2 = (if data AND 0x01 \<noteq> 0 then tm1638_sdo_high w1 else tm1638_sdo_low w1);
            data' = drop_bit 1 data;
            w3 = tm1638_clk_high w2
        in send_data_loop (i + 1) data' w3
      else w)"
  by pat_completeness auto
termination
  by (relation "measure (\<lambda>(i, data, w). 8 - i)") auto

declare send_data_loop.simps [simp del]

definition tm1638_send_data :: "uint8_t \<Rightarrow> world \<Rightarrow> world" where
  "tm1638_send_data data w = send_data_loop 0 data w"

definition tm1638_send_command :: "uint8_t \<Rightarrow> world \<Rightarrow> world" where
  "tm1638_send_command cmd w =
     tm1638_end_transmission (tm1638_send_data cmd (tm1638_start_transmission w))"

subsection \<open>Public functions: brightness, clearing\<close>

definition tm1638_set_brightness :: "uint8_t \<Rightarrow> world \<Rightarrow> world" where
  "tm1638_set_brightness brightness0 w =
     (let brightness1 = (if brightness0 > 7 then 7 else brightness0);
          w1 = w\<lparr>tm := (tm w)\<lparr>brightness := brightness1\<rparr>\<rparr>;
          command = CMD_DISPLAY_CTRL OR DISPLAY_ON_MASK OR brightness1
      in tm1638_send_command command w1)"

text \<open>The loop of \<open>tm1638_display_clear\<close> that writes 0x00 to the 16 registers.\<close>

function display_clear_loop :: "nat \<Rightarrow> world \<Rightarrow> world" where
  "display_clear_loop i w =
     (if i < 16 then display_clear_loop (i + 1) (tm1638_send_data 0x00 w) else w)"
  by pat_completeness auto
termination
  by (relation "measure (\<lambda>(i, w). 16 - i)") auto

declare display_clear_loop.simps [simp del]

definition tm1638_display_clear :: "world \<Rightarrow> world" where
  "tm1638_display_clear w =
     (let w1 = tm1638_send_command CMD_DATA_SET_AUTO_INC w;
          w2 = tm1638_start_transmission w1;
          w3 = tm1638_send_data CMD_ADDRESS_SET w2;
          w4 = display_clear_loop 0 w3
      in tm1638_end_transmission w4)"

definition tm1638_init :: "uint8_t \<Rightarrow> world \<Rightarrow> world" where
  "tm1638_init brightness0 w =
     (let w1 = w\<lparr>tm := (tm w)\<lparr>brightness := brightness0 AND DISPLAY_BRIGHTNESS_MASK\<rparr>\<rparr>;
          w2 = tm1638_display_clear w1
      in tm1638_set_brightness (brightness (tm w2)) w2)"

subsection \<open>The 7-segment font\<close>

text \<open>\<open>char_to_segment_code\<close>: the \<open>switch\<close>, case by case, with its \<open>default\<close> last.\<close>

definition char_to_segment_code :: "char \<Rightarrow> uint8_t" where
  "char_to_segment_code c =
     (if c = CHR ''0'' then 0x3f
      else if c = CHR ''1'' then 0x06
      else if c = CHR ''2'' then 0x5b
      else if c = CHR ''3'' then 0x4f
      else if c = CHR ''4'' then 0x66
      else if c = CHR ''5'' then 0x6d
      else if c = CHR ''6'' then 0x7d
      else if c = CHR ''7'' then 0x07
      else if c = CHR ''8'' then 0x7f
      else if c = CHR ''9'' then 0x6f
      else if c = CHR ''A'' then 0x77
      else if c = CHR ''B'' then 0x7f
      else if c = CHR ''C'' then 0x39
      else if c = CHR ''D'' then 0x3f
      else if c = CHR ''E'' then 0x79
      else if c = CHR ''F'' then 0x71
      else if c = CHR ''G'' then 0x7d
      else if c = CHR ''H'' then 0x76
      else if c = CHR ''I'' then 0x06
      else if c = CHR ''J'' then 0x0e
      else if c = CHR ''L'' then 0x38
      else if c = CHR ''O'' then 0x3f
      else if c = CHR ''P'' then 0x73
      else if c = CHR ''S'' then 0x6d
      else if c = CHR ''U'' then 0x3e
      else if c = CHR ''a'' then 0x5f
      else if c = CHR ''b'' then 0x7c
      else if c = CHR ''c'' then 0x58
      else if c = CHR ''d'' then 0x5e
      else if c = CHR ''f'' then 0x71
      else if c = CHR ''g'' then 0x6f
      else if c = CHR ''h'' then 0x74
      else if c = CHR ''i'' then 0x04
      else if c = CHR ''n'' then 0x54
      else if c = CHR ''o'' then 0x5c
      else if c = CHR ''r'' then 0x50
      else if c = CHR ''t'' then 0x78
      else if c = CHR ''u'' then 0x1c
      else if c = CHR ''y'' then 0x6e
      else if c = CHR '' '' then 0x00
      else if c = CHR ''_'' then 0x08
      else if c = CHR ''-'' then 0x40
      else 0x00)"

subsection \<open>Public functions: segments, LEDs, characters\<close>

text \<open>
  \<open>uint8_t address = CMD_ADDRESS_SET + (2 * (position - 1))\<close>, of \<open>tm1638_set_segment\<close>:
  the sum is formed in \<open>int\<close> and converted to \<open>uint8_t\<close>, which is the arithmetic of
  \<open>8 word\<close>.
\<close>

definition segment_address :: "uint8_t \<Rightarrow> uint8_t" where
  "segment_address position = CMD_ADDRESS_SET + (2 * (position - 1))"

text \<open>\<open>uint8_t address = CMD_ADDRESS_SET + (2 * position) - 1\<close>, of \<open>tm1638_set_led\<close>.\<close>

definition led_address :: "uint8_t \<Rightarrow> uint8_t" where
  "led_address position = CMD_ADDRESS_SET + (2 * position) - 1"

definition tm1638_set_segment :: "uint8_t \<Rightarrow> uint8_t \<Rightarrow> world \<Rightarrow> world" where
  "tm1638_set_segment position data w =
     (if position < 1 \<or> position > 8 then w
      else
        let address = segment_address position;
            w1 = tm1638_start_transmission w;
            w2 = tm1638_send_data address w1;
            w3 = tm1638_send_data data w2
        in tm1638_end_transmission w3)"

definition tm1638_set_led :: "uint8_t \<Rightarrow> bool \<Rightarrow> world \<Rightarrow> world" where
  "tm1638_set_led position on w =
     (if position < 1 \<or> position > 8 then w
      else
        let address = led_address position;
            w1 = tm1638_start_transmission w;
            w2 = tm1638_send_data address w1;
            w3 = tm1638_send_data (if on then 0x01 else 0x00) w2
        in tm1638_end_transmission w3)"

definition tm1638_display_char :: "uint8_t \<Rightarrow> char \<Rightarrow> bool \<Rightarrow> world \<Rightarrow> world" where
  "tm1638_display_char position c dot w =
     (if position < 1 \<or> position > 8 then w
      else
        let hex_code0 = char_to_segment_code c;
            hex_code = (if dot then hex_code0 OR 0x80 else hex_code0)
        in tm1638_set_segment position hex_code w)"

subsection \<open>Text layout\<close>

text \<open>
  The argument \<open>str\<close> of \<open>tm1638_display_txt\<close> is the characters of the C string before
  its terminator, so \<open>strlen(str)\<close> is the length of the list.

  \<open>int8_t len = strlen(str)\<close> and \<open>int8_t str_idx = len - 1\<close> convert a value to
  \<open>int8_t\<close>; \<open>to_int8\<close> is that conversion as the compilers for the target do it
  (the value modulo 256, read as two's complement).
\<close>

definition to_int8 :: "int \<Rightarrow> int" where
  "to_int8 x = sint (word_of_int x :: 8 word)"

text \<open>
  The parsing loop \<open>while (str_idx >= 0 && buf_idx >= 0)\<close>. Both indices only count
  down from a value of \<open>int8_t\<close> and stop below 0, so they never wrap inside the loop.
\<close>

function display_txt_loop ::
  "string \<Rightarrow> int \<Rightarrow> int \<Rightarrow> char list \<Rightarrow> bool list \<Rightarrow> char list \<times> bool list" where
  "display_txt_loop str str_idx buf_idx display_buf dots =
     (if str_idx \<ge> 0 \<and> buf_idx \<ge> 0 then
        if str ! nat str_idx = CHR ''.'' then
          display_txt_loop str (str_idx - 1) buf_idx display_buf
            (if buf_idx < 7 then dots[nat (buf_idx + 1) := True] else dots)
        else
          display_txt_loop str (str_idx - 1) (buf_idx - 1)
            (display_buf[nat buf_idx := str ! nat str_idx]) dots
      else (display_buf, dots))"
  by pat_completeness auto
termination
  by (relation "measure (\<lambda>(str, str_idx, buf_idx, display_buf, dots). nat (str_idx + 1))") auto

declare display_txt_loop.simps [simp del]

text \<open>
  The first half of \<open>tm1638_display_txt\<close>: the declarations and the parsing loop.
  \<open>display_buf\<close> has 9 bytes, 8 spaces and the terminator.
\<close>

definition display_txt_parse :: "string \<Rightarrow> char list \<times> bool list" where
  "display_txt_parse str =
     (let display_buf = ''        '' @ [CHR 0x00];
          dots = replicate 8 False;
          len = to_int8 (int (length str));
          str_idx = to_int8 (len - 1);
          buf_idx = 7
      in display_txt_loop str str_idx buf_idx display_buf dots)"

text \<open>The second half: \<open>for (uint8_t i = 0; i < 8; i++)\<close>, one character per cell.\<close>

function display_txt_out_loop :: "nat \<Rightarrow> char list \<Rightarrow> bool list \<Rightarrow> world \<Rightarrow> world" where
  "display_txt_out_loop i display_buf dots w =
     (if i < 8 then
        display_txt_out_loop (i + 1) display_buf dots
          (tm1638_display_char (of_nat i + 1) (display_buf ! i) (dots ! i) w)
      else w)"
  by pat_completeness auto
termination
  by (relation "measure (\<lambda>(i, display_buf, dots, w). 8 - i)") auto

declare display_txt_out_loop.simps [simp del]

definition tm1638_display_txt :: "string \<Rightarrow> world \<Rightarrow> world" where
  "tm1638_display_txt str w =
     (let (display_buf, dots) = display_txt_parse str
      in display_txt_out_loop 0 display_buf dots w)"

subsection \<open>Key scanning\<close>

text \<open>
  The loop of \<open>tm1638_scan_buttons\<close> that reads the 32 bits of key scan data. Of the
  \<open>GPIO_InitTypeDef\<close> the function fills in, \<open>Pin\<close>, \<open>Mode\<close> and \<open>Pull\<close> are set; the other
  fields keep the 0 of the initialiser.
\<close>

function scan_read_loop :: "nat \<Rightarrow> uint32_t \<Rightarrow> world \<Rightarrow> uint32_t \<times> world" where
  "scan_read_loop i raw_key_data w =
     (if i < 32 then
        let w1 = tm1638_clk_low w;
            (level, w2) = HAL_GPIO_ReadPin (dio_port (tm w1)) (dio_pin (tm w1)) w1;
            raw_key_data' =
              (if level = GPIO_PIN_SET then raw_key_data OR push_bit i 1 else raw_key_data);
            w3 = tm1638_clk_high w2
        in scan_read_loop (i + 1) raw_key_data' w3
      else (raw_key_data, w))"
  by pat_completeness auto
termination
  by (relation "measure (\<lambda>(i, raw_key_data, w). 32 - i)") auto

declare scan_read_loop.simps [simp del]

text \<open>
  The eight tests at the end of \<open>tm1638_scan_buttons\<close> that build \<open>pressed_keys\<close>
  from \<open>raw_key_data\<close>, in the order of the source.
\<close>

definition decode_keys :: "uint32_t \<Rightarrow> uint8_t" where
  "decode_keys raw_key_data =
     (let pressed_keys = 0;
          pressed_keys = (if raw_key_data AND push_bit 1 1 \<noteq> 0 then pressed_keys OR push_bit 0 1 else pressed_keys);
          pressed_keys = (if raw_key_data AND push_bit 9 1 \<noteq> 0 then pressed_keys OR push_bit 1 1 else pressed_keys);
          pressed_keys = (if raw_key_data AND push_bit 17 1 \<noteq> 0 then pressed_keys OR push_bit 2 1 else pressed_keys);
          pressed_keys = (if raw_key_data AND push_bit 25 1 \<noteq> 0 then pressed_keys OR push_bit 3 1 else pressed_keys);
          pressed_keys = (if raw_key_data AND push_bit 5 1 \<noteq> 0 then pressed_keys OR push_bit 4 1 else pressed_keys);
          pressed_keys = (if raw_key_data AND push_bit 13 1 \<noteq> 0 then pressed_keys OR push_bit 5 1 else pressed_keys);
          pressed_keys = (if raw_key_data AND push_bit 21 1 \<noteq> 0 then pressed_keys OR push_bit 6 1 else pressed_keys);
          pressed_keys = (if raw_key_data AND push_bit 29 1 \<noteq> 0 then pressed_keys OR push_bit 7 1 else pressed_keys)
      in pressed_keys)"

definition tm1638_scan_buttons :: "world \<Rightarrow> uint8_t \<times> world" where
  "tm1638_scan_buttons w =
     (let w1 = tm1638_start_transmission w;
          w2 = tm1638_send_data CMD_DATA_READ w1;
          w3 = HAL_GPIO_Init (dio_port (tm w2)) (dio_pin (tm w2)) GPIO_MODE_INPUT GPIO_PULLUP w2;
          (raw_key_data, w4) = scan_read_loop 0 0 w3;
          w5 = tm1638_end_transmission w4;
          w6 = HAL_GPIO_Init (dio_port (tm w5)) (dio_pin (tm w5)) GPIO_MODE_OUTPUT_PP GPIO_NOPULL w5
      in (decode_keys raw_key_data, w6))"

subsection \<open>Blocking key read\<close>

text \<open>
  \<open>while ((buttons = tm1638_scan_buttons(tm)) == 0) HAL_Delay(20);\<close> may run forever:
  \<open>None\<close> is the run that never leaves the loop.
\<close>

partial_function (option) wait_key_press :: "world \<Rightarrow> (uint8_t \<times> world) option" where
  "wait_key_press w =
     (let r = tm1638_scan_buttons w
      in if fst r = 0 then wait_key_press (HAL_Delay 20 (snd r)) else Some r)"

declare wait_key_press.simps [code]

text \<open>\<open>while (tm1638_scan_buttons(tm) != 0) HAL_Delay(20);\<close>\<close>

partial_function (option) wait_key_release :: "world \<Rightarrow> world option" where
  "wait_key_release w =
     (let r = tm1638_scan_buttons w
      in if fst r \<noteq> 0 then wait_key_release (HAL_Delay 20 (snd r)) else Some (snd r))"

declare wait_key_release.simps [code]

text \<open>
  The conversion loop \<open>for (uint8_t i = 0; i < 8; i++)\<close> with its \<open>return i + 1\<close>,
  and the \<open>return 0\<close> after it.
\<close>

function key_number_loop :: "nat \<Rightarrow> uint8_t \<Rightarrow> uint8_t" where
  "key_number_loop i buttons =
     (if i < 8 then
        if drop_bit i buttons AND 1 \<noteq> 0 then of_nat i + 1
        else key_number_loop (i + 1) buttons
      else 0)"
  by pat_completeness auto
termination
  by (relation "measure (\<lambda>(i, buttons). 8 - i)") auto

declare key_number_loop.simps [simp del]

definition tm1638_read_key_blocking :: "world \<Rightarrow> (uint8_t \<times> world) option" where
  "tm1638_read_key_blocking w =
     (case wait_key_press w of
        None \<Rightarrow> None
      | Some (buttons, w1) \<Rightarrow>
          (case wait_key_release w1 of
             None \<Rightarrow> None
           | Some w2 \<Rightarrow> Some (key_number_loop 0 buttons, w2)))"

subsection \<open>A byte on the wires\<close>

text \<open>
  The pin writes that clock the low \<open>n\<close> bits of a byte out, least significant bit
  first: for each bit, clock low, the bit on the data line, clock high. The theorems
  below state what the driver transmits in these terms.
\<close>

definition byte_on_wire :: "TM1638 \<Rightarrow> uint8_t \<Rightarrow> nat \<Rightarrow> hal_call list" where
  "byte_on_wire t d n = concat (map (\<lambda>k.
      [WritePin (clk_port t) (clk_pin t) GPIO_PIN_RESET,
       WritePin (dio_port t) (dio_pin t) (if bit d k then GPIO_PIN_SET else GPIO_PIN_RESET),
       WritePin (clk_port t) (clk_pin t) GPIO_PIN_SET]) [0..<n])"

subsection \<open>The levels a scan samples\<close>

text \<open>
  The levels the next 32 reads will return, as a 32-bit word: bit \<open>n\<close> is set iff the
  \<open>n\<close>-th of them is \<open>GPIO_PIN_SET\<close>. This is the value \<open>raw_key_data\<close> has after the
  read loop of \<open>tm1638_scan_buttons\<close> (lemma \<open>scan_read_loop_sampled\<close>).
\<close>

definition sampled_word :: "world \<Rightarrow> uint32_t" where
  "sampled_word w =
     horner_sum of_bool 2 (map (\<lambda>n. pin_in w (reads w + n) = GPIO_PIN_SET) [0..<32])"

text \<open>
  The mask the \<open>k\<close>-th scan from state \<open>w\<close> returns (\<open>k = 0\<close> is the next one) when
  nothing but scans reads the data line in between: each scan takes 32 samples.
\<close>

definition scan_mask :: "world \<Rightarrow> nat \<Rightarrow> uint8_t" where
  "scan_mask w k = decode_keys (sampled_word (w\<lparr>reads := reads w + 32 * k\<rparr>))"

subsection \<open>A concrete handle and state\<close>

text \<open>
  A handle with the three lines on pins 0, 1 and 2 of one port (the pin arguments of the
  HAL are one-hot masks), and a state in which nothing has happened yet and the data
  line will present the levels \<open>f\<close>. Used to run the driver on concrete inputs.
\<close>

definition example_tm :: TM1638 where
  "example_tm = \<lparr>clk_port = 0x40020000, clk_pin = 0x0001, dio_port = 0x40020000,
      dio_pin = 0x0002, stb_port = 0x40020000, stb_pin = 0x0004, brightness = 0\<rparr>"

definition example_world :: "(nat \<Rightarrow> GPIO_PinState) \<Rightarrow> world" where
  "example_world f = \<lparr>tm = example_tm, calls = [], pin_in = f, reads = 0\<rparr>"

section \<open>Properties\<close>

subsection \<open>Serial transport\<close>

lemmas pin_defs = HAL_GPIO_WritePin_def tm1638_sdo_high_def tm1638_sdo_low_def
  tm1638_stb_high_def tm1638_stb_low_def tm1638_clk_high_def tm1638_clk_low_def
  tm1638_start_transmission_def tm1638_end_transmission_def

lemma upt_0_Suc_shift: "[0..<Suc n] = 0 # map Suc [0..<n]"
  by (simp add: upt_conv_Cons map_Suc_upt del: upt_Suc)

lemma byte_on_wire_Suc:
  "byte_on_wire t d (Suc n) =
     [WritePin (clk_port t) (clk_pin t) GPIO_PIN_RESET,
      WritePin (dio_port t) (dio_pin t) (if bit d 0 then GPIO_PIN_SET else GPIO_PIN_RESET),
      WritePin (clk_port t) (clk_pin t) GPIO_PIN_SET] @ byte_on_wire t (drop_bit 1 d) n"
  unfolding byte_on_wire_def upt_0_Suc_shift
  by (simp add: comp_def bit_drop_bit_eq del: upt_Suc)

lemma and_one_neq_0: "(d AND 1 \<noteq> 0) = bit (d :: 'a::len word) 0"
  by (simp add: and_one_eq bit_0 mod_2_eq_odd)

text \<open>One byte sent is 24 pin writes, and nothing else changes.\<close>

lemma send_data_loop_eq:
  "i \<le> 8 \<Longrightarrow> send_data_loop i d w = w\<lparr>calls := calls w @ byte_on_wire (tm w) d (8 - i)\<rparr>"
proof (induction i d w rule: send_data_loop.induct)
  case (1 i d w)
  show ?case
  proof (cases "i < 8")
    case True
    then have s: "8 - i = Suc (8 - (i + 1))" by simp
    from True 1 show ?thesis
      apply (subst send_data_loop.simps)
      apply (subst s)
      apply (subst byte_on_wire_Suc)
      apply (simp add: Let_def pin_defs and_one_neq_0)
      done
  next
    case False
    with 1 show ?thesis
      by (subst send_data_loop.simps) (simp add: byte_on_wire_def)
  qed
qed

lemma tm1638_send_data_eq:
  "tm1638_send_data d w = w\<lparr>calls := calls w @ byte_on_wire (tm w) d 8\<rparr>"
  by (simp add: tm1638_send_data_def send_data_loop_eq)

lemma tm1638_send_command_eq:
  "tm1638_send_command c w =
     w\<lparr>calls := calls w @ [WritePin (stb_port (tm w)) (stb_pin (tm w)) GPIO_PIN_RESET]
        @ byte_on_wire (tm w) c 8 @ [WritePin (stb_port (tm w)) (stb_pin (tm w)) GPIO_PIN_SET]\<rparr>"
  by (simp add: tm1638_send_command_def tm1638_send_data_eq pin_defs)

subsection \<open>Brightness\<close>

lemma clamp_is_min: "(if b > 7 then 7 else b) = min b (7 :: uint8_t)"
  using leD [of b 7] by (auto simp: min_def)

lemma display_ctrl_byte: "CMD_DISPLAY_CTRL OR DISPLAY_ON_MASK OR x = 0x88 OR x"
  by (simp add: CMD_DISPLAY_CTRL_def DISPLAY_ON_MASK_def or.assoc [symmetric])

lemma tm1638_set_brightness_eq:
  "tm1638_set_brightness b w =
     tm1638_send_command (0x88 OR min b 7) (w\<lparr>tm := (tm w)\<lparr>brightness := min b 7\<rparr>\<rparr>)"
  by (simp only: tm1638_set_brightness_def Let_def clamp_is_min display_ctrl_byte)

text \<open>
  C6. For every brightness \<open>b\<close>, also above 7, \<open>tm1638_set_brightness\<close> transmits one
  frame of one byte: strobe low, the eight bits of \<open>0x88 | min(b, 7)\<close> least significant
  bit first, strobe high. The byte has the display-on bit (bit 3) set, and the handle
  stores \<open>min(b, 7)\<close>.
\<close>

theorem set_brightness_command:
  "calls (tm1638_set_brightness b w) =
     calls w @ [WritePin (stb_port (tm w)) (stb_pin (tm w)) GPIO_PIN_RESET]
       @ concat (map (\<lambda>k.
           [WritePin (clk_port (tm w)) (clk_pin (tm w)) GPIO_PIN_RESET,
            WritePin (dio_port (tm w)) (dio_pin (tm w))
              (if bit (0x88 OR min b 7) k then GPIO_PIN_SET else GPIO_PIN_RESET),
            WritePin (clk_port (tm w)) (clk_pin (tm w)) GPIO_PIN_SET]) [0..<8])
       @ [WritePin (stb_port (tm w)) (stb_pin (tm w)) GPIO_PIN_SET]
   \<and> bit (0x88 OR min b 7) 3
   \<and> tm (tm1638_set_brightness b w) = (tm w)\<lparr>brightness := min b 7\<rparr>"
proof -
  have "bit (0x88 OR min b 7) 3"
    by (simp add: bit_or_iff)
  then show ?thesis
    by (simp add: tm1638_set_brightness_eq tm1638_send_command_eq byte_on_wire_def del: upt_Suc)
qed

subsection \<open>Register addresses and positions\<close>

lemma position_cases:
  assumes "1 \<le> p" "p \<le> (8 :: uint8_t)"
  shows "p = 1 \<or> p = 2 \<or> p = 3 \<or> p = 4 \<or> p = 5 \<or> p = 6 \<or> p = 7 \<or> p = 8"
proof -
  from assms have "1 \<le> unat p" "unat p \<le> 8"
    by (simp_all add: word_le_nat_alt)
  then have "unat p \<in> {1, 2, 3, 4, 5, 6, 7, 8}"
    by auto
  then have "word_of_nat (unat p) \<in> (word_of_nat ` {1, 2, 3, 4, 5, 6, 7, 8} :: uint8_t set)"
    by (rule imageI)
  then show ?thesis
    by simp
qed

lemma position_valid:
  assumes "1 \<le> p" "p \<le> (8 :: uint8_t)"
  shows "\<not> (p < 1 \<or> p > 8)"
  using assms by (simp add: not_less word_le_nat_alt word_less_nat_alt)

lemma address_list:
  "concat (map (\<lambda>q. [segment_address q, led_address q]) [1, 2, 3, 4, 5, 6, 7, 8]) =
      [0xC0, 0xC1, 0xC2, 0xC3, 0xC4, 0xC5, 0xC6, 0xC7, 0xC8, 0xC9, 0xCA, 0xCB, 0xCC, 0xCD, 0xCE, 0xCF]"
  by (simp add: segment_address_def led_address_def CMD_ADDRESS_SET_def)

text \<open>
  C7. For every position \<open>p\<close> in [1,8]: the segment register address is
  \<open>0xC0 + 2 * (p - 1)\<close> (no wrap-around) and even; the LED register address is the
  segment address plus 1, that is \<open>0xC0 + 2 * p - 1\<close>; these are the addresses
  \<open>tm1638_set_segment\<close> and \<open>tm1638_set_led\<close> send as the first byte of their frame;
  and the 8 pairs, in order, are the 16 addresses 0xC0 to 0xCF, each once.
\<close>

theorem register_addresses:
  assumes "1 \<le> p" and "p \<le> 8"
  shows "unat (segment_address p) = 0xC0 + 2 * (unat p - 1)
    \<and> even (unat (segment_address p))
    \<and> led_address p = segment_address p + 1
    \<and> unat (led_address p) = 0xC0 + 2 * unat p - 1
    \<and> tm1638_set_segment p d w =
        tm1638_end_transmission (tm1638_send_data d
          (tm1638_send_data (segment_address p) (tm1638_start_transmission w)))
    \<and> tm1638_set_led p on w =
        tm1638_end_transmission (tm1638_send_data (if on then 1 else 0)
          (tm1638_send_data (led_address p) (tm1638_start_transmission w)))
    \<and> concat (map (\<lambda>q. [segment_address q, led_address q]) [1, 2, 3, 4, 5, 6, 7, 8]) =
        [0xC0, 0xC1, 0xC2, 0xC3, 0xC4, 0xC5, 0xC6, 0xC7,
         0xC8, 0xC9, 0xCA, 0xCB, 0xCC, 0xCD, 0xCE, 0xCF]"
proof -
  have seg: "unat (segment_address p) = 0xC0 + 2 * (unat p - 1)"
    using position_cases [OF assms]
    by (auto simp: segment_address_def CMD_ADDRESS_SET_def)
  have led: "led_address p = segment_address p + 1"
    by (simp add: segment_address_def led_address_def algebra_simps)
  have ledn: "unat (led_address p) = 0xC0 + 2 * unat p - 1"
    using position_cases [OF assms]
    by (auto simp: led_address_def CMD_ADDRESS_SET_def)
  have ev: "even (unat (segment_address p))"
    by (simp add: seg)
  have s: "tm1638_set_segment p d w =
        tm1638_end_transmission (tm1638_send_data d
          (tm1638_send_data (segment_address p) (tm1638_start_transmission w)))"
    using position_valid [OF assms] by (simp add: tm1638_set_segment_def Let_def)
  have l: "tm1638_set_led p on w =
        tm1638_end_transmission (tm1638_send_data (if on then 1 else 0)
          (tm1638_send_data (led_address p) (tm1638_start_transmission w)))"
    using position_valid [OF assms] by (simp add: tm1638_set_led_def Let_def)
  from seg ev led ledn s l address_list show ?thesis
    by blast
qed

theorem register_addresses_witness:
  "unat (segment_address 3) = 0xC4 \<and> even (unat (segment_address 3)) \<and> led_address 3 = 0xC5"
  using register_addresses [of 3] by (simp add: segment_address_def CMD_ADDRESS_SET_def)

text \<open>
  C8. For every position outside [1,8], \<open>tm1638_set_segment\<close>, \<open>tm1638_set_led\<close> and
  \<open>tm1638_display_char\<close> return the state they were given: no HAL call is made, the
  handle is unchanged, and there is no error to report (the functions are \<open>void\<close>).
\<close>

theorem invalid_position_noop:
  "p < 1 \<or> p > 8 \<Longrightarrow>
     tm1638_set_segment p d w = w \<and> tm1638_set_led p on w = w \<and> tm1638_display_char p c dot w = w"
  by (simp add: tm1638_set_segment_def tm1638_set_led_def tm1638_display_char_def)

theorem invalid_position_noop_witness:
  "\<forall>w. tm1638_set_segment 0 0xFF w = w \<and> tm1638_set_led 9 True w = w
     \<and> tm1638_display_char 200 (CHR ''8'') True w = w"
  using invalid_position_noop [of 0] invalid_position_noop [of 9] invalid_position_noop [of 200]
  by simp

subsection \<open>Key scanning\<close>

lemma and_push_bit_neq_0: "(x AND push_bit n 1 \<noteq> 0) = bit (x :: 'a::len word) n"
  by (simp add: bit_iff_and_push_bit_not_eq_0)

lemma or_if: "(if c then p OR m else p) = p OR (if c then m else (0 :: 'a::len word))"
  by simp

lemma bit_if_0: "bit (if c then m else (0 :: 'a::len word)) i = (c \<and> bit m i)"
  by simp

lemma bit_single: "bit (push_bit k 1 :: uint8_t) i = (i = k \<and> k < 8)"
  by (auto simp: bit_simps)

lemma decode_keys_bits:
  "bit (decode_keys raw) i \<longleftrightarrow>
     (i = 0 \<and> bit raw 1) \<or> (i = 1 \<and> bit raw 9) \<or> (i = 2 \<and> bit raw 17) \<or> (i = 3 \<and> bit raw 25)
   \<or> (i = 4 \<and> bit raw 5) \<or> (i = 5 \<and> bit raw 13) \<or> (i = 6 \<and> bit raw 21) \<or> (i = 7 \<and> bit raw 29)"
proof -
  have "bit (decode_keys raw) i \<longleftrightarrow>
      (bit raw 1 \<and> i = 0 \<and> (0::nat) < 8) \<or> (bit raw 9 \<and> i = 1 \<and> (1::nat) < 8)
    \<or> (bit raw 17 \<and> i = 2 \<and> (2::nat) < 8) \<or> (bit raw 25 \<and> i = 3 \<and> (3::nat) < 8)
    \<or> (bit raw 5 \<and> i = 4 \<and> (4::nat) < 8) \<or> (bit raw 13 \<and> i = 5 \<and> (5::nat) < 8)
    \<or> (bit raw 21 \<and> i = 6 \<and> (6::nat) < 8) \<or> (bit raw 29 \<and> i = 7 \<and> (7::nat) < 8)"
    unfolding decode_keys_def Let_def and_push_bit_neq_0 or_if
    by (simp only: bit_or_iff bit_if_0 bit_single bit_0_eq disj_assoc) simp
  then show ?thesis
    by auto
qed


lemma decode_keys_cong:
  assumes "\<forall>p \<in> set [1, 9, 17, 25, 5, 13, 21, 29]. bit x p = bit y p"
  shows "decode_keys x = decode_keys y"
proof (rule bit_word_eqI)
  fix i
  from assms show "bit (decode_keys x) i = bit (decode_keys y) i"
    by (simp add: decode_keys_bits)
qed

lemma decode_keys_0: "decode_keys 0 = 0"
  by (rule bit_word_eqI) (simp add: decode_keys_bits)

lemma bit_flip: "bit (x XOR push_bit n 1) p = (bit (x :: uint32_t) p \<noteq> (p = n \<and> n < 32))"
  by (auto simp: bit_simps)

text \<open>The read loop: 32 samples, bit \<open>n\<close> of the raw word is the \<open>n\<close>-th sample.\<close>

lemma scan_read_loop_frame:
  "i \<le> 32 \<Longrightarrow>
     snd (scan_read_loop i raw w) =
       w\<lparr>calls := calls w @ concat (replicate (32 - i)
            [WritePin (clk_port (tm w)) (clk_pin (tm w)) GPIO_PIN_RESET,
             ReadPin (dio_port (tm w)) (dio_pin (tm w)),
             WritePin (clk_port (tm w)) (clk_pin (tm w)) GPIO_PIN_SET]),
          reads := reads w + (32 - i)\<rparr>"
proof (induction i raw w rule: scan_read_loop.induct)
  case (1 i raw w)
  show ?case
  proof (cases "i < 32")
    case True
    then have s: "32 - i = Suc (32 - (i + 1))" by simp
    from True 1 show ?thesis
      apply (subst scan_read_loop.simps)
      apply (subst (1 2) s)
      apply (simp add: Let_def pin_defs HAL_GPIO_ReadPin_def)
      done
  next
    case False
    with 1 show ?thesis
      by (subst scan_read_loop.simps) simp
  qed
qed

lemma scan_read_loop_step:
  "i < 32 \<Longrightarrow>
     scan_read_loop i raw w =
       scan_read_loop (Suc i)
         (if pin_in w (reads w) = GPIO_PIN_SET then raw OR push_bit i 1 else raw)
         (w\<lparr>reads := Suc (reads w),
            calls := calls w @
              [WritePin (clk_port (tm w)) (clk_pin (tm w)) GPIO_PIN_RESET,
               ReadPin (dio_port (tm w)) (dio_pin (tm w)),
               WritePin (clk_port (tm w)) (clk_pin (tm w)) GPIO_PIN_SET]\<rparr>)"
  by (subst scan_read_loop.simps) (simp add: Let_def pin_defs HAL_GPIO_ReadPin_def)

lemma scan_read_loop_stop: "\<not> i < 32 \<Longrightarrow> scan_read_loop i raw w = (raw, w)"
  by (subst scan_read_loop.simps) simp

lemma scan_read_loop_bits:
  "i \<le> 32 \<Longrightarrow>
     bit (fst (scan_read_loop i raw w)) n \<longleftrightarrow>
       bit raw n \<or> (i \<le> n \<and> n < 32 \<and> pin_in w (reads w + (n - i)) = GPIO_PIN_SET)"
proof (induction k \<equiv> "32 - i" arbitrary: i raw w)
  case 0
  then have "\<not> i < 32" by simp
  then show ?case
    by (auto simp: scan_read_loop_stop)
next
  case (Suc k)
  then have i: "i < 32" and k: "k = 32 - Suc i" and le: "Suc i \<le> 32"
    by simp_all
  let ?raw = "if pin_in w (reads w) = GPIO_PIN_SET then raw OR push_bit i 1 else raw"
  let ?w = "w\<lparr>reads := Suc (reads w),
            calls := calls w @
              [WritePin (clk_port (tm w)) (clk_pin (tm w)) GPIO_PIN_RESET,
               ReadPin (dio_port (tm w)) (dio_pin (tm w)),
               WritePin (clk_port (tm w)) (clk_pin (tm w)) GPIO_PIN_SET]\<rparr>"
  have ih: "bit (fst (scan_read_loop (Suc i) ?raw ?w)) n \<longleftrightarrow>
       bit ?raw n \<or> (Suc i \<le> n \<and> n < 32 \<and> pin_in ?w (reads ?w + (n - Suc i)) = GPIO_PIN_SET)"
    by (rule Suc.hyps(1) [OF k le])
  have r: "bit ?raw n \<longleftrightarrow> bit raw n \<or> (n = i \<and> pin_in w (reads w) = GPIO_PIN_SET)"
    using i by (auto simp: bit_simps)
  have e: "Suc (reads w) + (n - Suc i) = reads w + (n - i)" if "Suc i \<le> n"
    using that by simp
  show ?case
    unfolding scan_read_loop_step [OF i] ih r
    using e i by (cases "n = i") (auto simp: Suc_le_eq)
qed

lemma bit_sampled_word:
  "bit (sampled_word w) n \<longleftrightarrow> n < 32 \<and> pin_in w (reads w + n) = GPIO_PIN_SET"
  by (auto simp: sampled_word_def bit_horner_sum_bit_word_iff simp del: upt_Suc)

lemma scan_read_loop_sampled: "fst (scan_read_loop 0 0 w) = sampled_word w"
  by (rule bit_word_eqI) (simp add: scan_read_loop_bits bit_sampled_word)

lemma sampled_word_calls [simp]: "sampled_word (w\<lparr>calls := cs\<rparr>) = sampled_word w"
  by (simp add: sampled_word_def)

lemma tm1638_scan_buttons_eq:
  "tm1638_scan_buttons w =
     (decode_keys (sampled_word w),
      w\<lparr>calls := calls w @ [WritePin (stb_port (tm w)) (stb_pin (tm w)) GPIO_PIN_RESET]
           @ byte_on_wire (tm w) CMD_DATA_READ 8
           @ [InitPin (dio_port (tm w)) (dio_pin (tm w)) GPIO_MODE_INPUT GPIO_PULLUP]
           @ concat (replicate 32
               [WritePin (clk_port (tm w)) (clk_pin (tm w)) GPIO_PIN_RESET,
                ReadPin (dio_port (tm w)) (dio_pin (tm w)),
                WritePin (clk_port (tm w)) (clk_pin (tm w)) GPIO_PIN_SET])
           @ [WritePin (stb_port (tm w)) (stb_pin (tm w)) GPIO_PIN_SET,
              InitPin (dio_port (tm w)) (dio_pin (tm w)) GPIO_MODE_OUTPUT_PP GPIO_NOPULL],
         reads := reads w + 32\<rparr>)"
  apply (simp only: tm1638_scan_buttons_def Let_def split_def)
  apply (rule prod_eqI)
   apply (simp add: scan_read_loop_sampled tm1638_send_data_eq pin_defs HAL_GPIO_Init_def)
  apply (simp add: scan_read_loop_frame tm1638_send_data_eq pin_defs HAL_GPIO_Init_def)
  done

text \<open>
  C1. The pressed-key mask is a function of the raw bits at positions 1, 9, 17, 25, 5,
  13, 21, 29 only: bit \<open>i\<close> of the mask is set iff the raw bit at the \<open>i\<close>-th of these
  positions is set; two raw words that agree on these positions decode alike, so flipping
  any other bit changes nothing; the mask is 0 when none of them is set; and the raw word
  \<open>tm1638_scan_buttons\<close> decodes is the 32 levels it samples, the \<open>n\<close>-th as bit \<open>n\<close>.
\<close>

theorem scan_decode:
  "(\<forall>i<8. bit (decode_keys raw) i \<longleftrightarrow> bit raw ([1, 9, 17, 25, 5, 13, 21, 29] ! i))
   \<and> (\<forall>raw'. (\<forall>p \<in> set [1, 9, 17, 25, 5, 13, 21, 29]. bit raw' p = bit raw p)
         \<longrightarrow> decode_keys raw' = decode_keys raw)
   \<and> (\<forall>n. n \<notin> set [1, 9, 17, 25, 5, 13, 21, 29]
         \<longrightarrow> decode_keys (raw XOR push_bit n 1) = decode_keys raw)
   \<and> ((\<forall>p \<in> set [1, 9, 17, 25, 5, 13, 21, 29]. \<not> bit raw p) \<longrightarrow> decode_keys raw = 0)
   \<and> ((\<forall>n<32. bit raw n = (pin_in w (reads w + n) = GPIO_PIN_SET))
         \<longrightarrow> fst (tm1638_scan_buttons w) = decode_keys raw)"
proof (intro conjI allI impI)
  fix i :: nat
  assume "i < 8"
  then have "i = 0 \<or> i = 1 \<or> i = 2 \<or> i = 3 \<or> i = 4 \<or> i = 5 \<or> i = 6 \<or> i = 7"
    by arith
  then show "bit (decode_keys raw) i \<longleftrightarrow> bit raw ([1, 9, 17, 25, 5, 13, 21, 29] ! i)"
    by (elim disjE; simp add: decode_keys_bits)
next
  fix raw' :: uint32_t
  assume "\<forall>p \<in> set [1, 9, 17, 25, 5, 13, 21, 29]. bit raw' p = bit raw p"
  then show "decode_keys raw' = decode_keys raw"
    by (rule decode_keys_cong)
next
  fix n :: nat
  assume "n \<notin> set [1, 9, 17, 25, 5, 13, 21, 29]"
  then have "\<forall>p \<in> set [1, 9, 17, 25, 5, 13, 21, 29]. bit (raw XOR push_bit n 1) p = bit raw p"
    unfolding bit_flip by auto
  then show "decode_keys (raw XOR push_bit n 1) = decode_keys raw"
    by (rule decode_keys_cong)
next
  assume "\<forall>p \<in> set [1, 9, 17, 25, 5, 13, 21, 29]. \<not> bit raw p"
  then have "\<forall>p \<in> set [1, 9, 17, 25, 5, 13, 21, 29]. bit raw p = bit (0 :: uint32_t) p"
    by simp
  then have "decode_keys raw = decode_keys 0"
    by (rule decode_keys_cong)
  then show "decode_keys raw = 0"
    by (simp add: decode_keys_0)
next
  assume "\<forall>n<32. bit raw n = (pin_in w (reads w + n) = GPIO_PIN_SET)"
  then have "raw = sampled_word w"
    by (intro bit_word_eqI) (simp add: bit_sampled_word)
  then show "fst (tm1638_scan_buttons w) = decode_keys raw"
    by (simp add: tm1638_scan_buttons_eq)
qed

lemma sampled_example_S1_S2:
  "sampled_word (example_world (\<lambda>n. if n = 1 \<or> n = 9 then GPIO_PIN_SET else GPIO_PIN_RESET)) = 0x202"
  by code_simp

theorem scan_decode_witness:
  "bit (decode_keys 0x02000000) 3
   \<and> decode_keys (0x02000000 XOR push_bit 4 1) = decode_keys 0x02000000
   \<and> decode_keys 0xDDDDDDDD = 0
   \<and> fst (tm1638_scan_buttons
        (example_world (\<lambda>n. if n = 1 \<or> n = 9 then GPIO_PIN_SET else GPIO_PIN_RESET))) =
      decode_keys 0x202"
proof -
  let ?W = "example_world (\<lambda>n. if n = 1 \<or> n = 9 then GPIO_PIN_SET else GPIO_PIN_RESET)"
  let ?K = "[1, 9, 17, 25, 5, 13, 21, 29] :: nat list"
  note t = scan_decode [of "0x02000000" ?W]
  from t have "\<forall>i<8. bit (decode_keys 0x02000000) i \<longleftrightarrow> bit (0x02000000 :: uint32_t) (?K ! i)"
    by (rule conjunct1)
  then have "(3 :: nat) < 8 \<longrightarrow>
      (bit (decode_keys 0x02000000) 3 \<longleftrightarrow> bit (0x02000000 :: uint32_t) (?K ! 3))"
    by (rule spec)
  then have a: "bit (decode_keys 0x02000000) 3"
    by simp
  from t have "\<forall>n. n \<notin> set ?K \<longrightarrow> decode_keys (0x02000000 XOR push_bit n 1) = decode_keys 0x02000000"
    by (rule conjunct2 [THEN conjunct2, THEN conjunct1])
  then have "4 \<notin> set ?K \<longrightarrow> decode_keys (0x02000000 XOR push_bit 4 1) = decode_keys 0x02000000"
    by (rule spec)
  then have b: "decode_keys (0x02000000 XOR push_bit 4 1) = decode_keys 0x02000000"
    by (rule mp) simp
  have "(\<forall>p \<in> set ?K. \<not> bit (0xDDDDDDDD :: uint32_t) p) \<longrightarrow> decode_keys 0xDDDDDDDD = 0"
    using scan_decode [of "0xDDDDDDDD" ?W]
    by (rule conjunct2 [THEN conjunct2, THEN conjunct2, THEN conjunct1])
  then have c: "decode_keys 0xDDDDDDDD = 0"
    by (rule mp) simp
  have h: "\<forall>n<32. bit (0x202 :: uint32_t) n = (pin_in ?W (reads ?W + n) = GPIO_PIN_SET)"
  proof (intro allI impI)
    fix n :: nat
    assume "n < 32"
    then show "bit (0x202 :: uint32_t) n = (pin_in ?W (reads ?W + n) = GPIO_PIN_SET)"
      using bit_sampled_word [of ?W n] by (simp only: sampled_example_S1_S2 simp_thms)
  qed
  have "(\<forall>n<32. bit (0x202 :: uint32_t) n = (pin_in ?W (reads ?W + n) = GPIO_PIN_SET))
          \<longrightarrow> fst (tm1638_scan_buttons ?W) = decode_keys 0x202"
    using scan_decode [of "0x202" ?W]
    by (rule conjunct2 [THEN conjunct2, THEN conjunct2, THEN conjunct2])
  from this h have d: "fst (tm1638_scan_buttons ?W) = decode_keys 0x202"
    by (rule mp)
  from a b c d show ?thesis
    by (intro conjI)
qed

subsection \<open>Blocking key read\<close>

lemma key_number_loop_step:
  "i < 8 \<Longrightarrow> key_number_loop i b = (if bit b i then of_nat i + 1 else key_number_loop (Suc i) b)"
  by (subst key_number_loop.simps) (simp add: and_one_neq_0 bit_drop_bit_eq)

lemma key_number_loop_stop: "\<not> i < 8 \<Longrightarrow> key_number_loop i b = 0"
  by (subst key_number_loop.simps) simp

lemma key_number_loop_first:
  "i \<le> k \<Longrightarrow> k < 8 \<Longrightarrow> bit b k \<Longrightarrow> (\<forall>j. i \<le> j \<and> j < k \<longrightarrow> \<not> bit b j) \<Longrightarrow>
     key_number_loop i b = of_nat k + 1"
proof (induction n \<equiv> "k - i" arbitrary: i)
  case 0
  then have "i = k" by simp
  with 0 show ?case
    by (simp add: key_number_loop_step)
next
  case (Suc n)
  then have i: "i < k" "i < 8" "\<not> bit b i"
    by auto
  have "key_number_loop (Suc i) b = of_nat k + 1"
    using Suc by (intro Suc.hyps(1)) auto
  with i show ?case
    by (simp add: key_number_loop_step)
qed

lemma key_number_loop_none:
  "(\<forall>j. i \<le> j \<and> j < 8 \<longrightarrow> \<not> bit b j) \<Longrightarrow> key_number_loop i b = 0"
proof (induction n \<equiv> "8 - i" arbitrary: i)
  case 0
  then show ?case by (simp add: key_number_loop_stop)
next
  case (Suc n)
  then have "i < 8" "\<not> bit b i" by auto
  moreover have "key_number_loop (Suc i) b = 0"
    using Suc by (intro Suc.hyps(1)) auto
  ultimately show ?case
    by (simp add: key_number_loop_step)
qed

lemma nonzero_has_first_bit:
  assumes "b \<noteq> (0 :: uint8_t)"
  obtains k where "k < 8" "bit b k" "\<forall>j<k. \<not> bit b j"
proof -
  from assms obtain m where m: "bit b m"
    by (auto simp: bit_eq_iff)
  define k where "k = (LEAST m. bit b m)"
  from m have "bit b k"
    unfolding k_def by (rule LeastI)
  moreover have "\<forall>j<k. \<not> bit b j"
    unfolding k_def using not_less_Least by blast
  moreover from \<open>bit b k\<close> have "k < 8"
    by (auto dest: bit_imp_le_length)
  ultimately show ?thesis
    using that by blast
qed

lemma key_number_loop_range:
  assumes "b \<noteq> 0"
  shows "1 \<le> key_number_loop 0 b \<and> key_number_loop 0 b \<le> 8
     \<and> bit b (unat (key_number_loop 0 b) - 1)
     \<and> (\<forall>j < unat (key_number_loop 0 b) - 1. \<not> bit b j)"
proof -
  from assms obtain k where k: "k < 8" "bit b k" "\<forall>j<k. \<not> bit b j"
    by (rule nonzero_has_first_bit)
  then have e: "key_number_loop 0 b = of_nat k + 1"
    by (intro key_number_loop_first) auto
  from k(1) have u: "unat (of_nat k + 1 :: uint8_t) = k + 1"
    by (simp add: unat_word_ariths unat_of_nat)
  from k u show ?thesis
    unfolding e by (simp add: word_le_nat_alt)
qed


lemma scan_buttons_frame:
  "tm (snd (tm1638_scan_buttons w)) = tm w"
  "pin_in (snd (tm1638_scan_buttons w)) = pin_in w"
  "reads (snd (tm1638_scan_buttons w)) = reads w + 32"
  "fst (tm1638_scan_buttons w) = decode_keys (sampled_word w)"
  by (simp_all add: tm1638_scan_buttons_eq)

lemma HAL_Delay_frame:
  "tm (HAL_Delay ms w) = tm w"
  "pin_in (HAL_Delay ms w) = pin_in w"
  "reads (HAL_Delay ms w) = reads w"
  by (simp_all add: HAL_Delay_def)

lemma wait_key_press_sound:
  "wait_key_press w = Some y \<Longrightarrow> fst y \<noteq> 0 \<and> tm (snd y) = tm w \<and> pin_in (snd y) = pin_in w"
proof (induction rule: wait_key_press.raw_induct [rotated 1, consumes 1])
  case (1 f w y)
  show ?case
  proof (cases "fst (tm1638_scan_buttons w) = 0")
    case True
    with 1(2) have "f (HAL_Delay 20 (snd (tm1638_scan_buttons w))) = Some y"
      by (simp add: Let_def)
    then have "fst y \<noteq> 0 \<and> tm (snd y) = tm (HAL_Delay 20 (snd (tm1638_scan_buttons w)))
        \<and> pin_in (snd y) = pin_in (HAL_Delay 20 (snd (tm1638_scan_buttons w)))"
      by (rule 1(1))
    then show ?thesis
      by (simp add: HAL_Delay_frame scan_buttons_frame)
  next
    case False
    with 1(2) have "y = tm1638_scan_buttons w"
      by (simp add: Let_def)
    with False show ?thesis
      by (simp add: scan_buttons_frame)
  qed
qed

lemma wait_key_release_sound:
  "wait_key_release w = Some w' \<Longrightarrow> tm w' = tm w \<and> pin_in w' = pin_in w"
proof (induction rule: wait_key_release.raw_induct [rotated 1, consumes 1])
  case (1 f w w')
  show ?case
  proof (cases "fst (tm1638_scan_buttons w) = 0")
    case False
    with 1(2) have "f (HAL_Delay 20 (snd (tm1638_scan_buttons w))) = Some w'"
      by (simp add: Let_def)
    then have "tm w' = tm (HAL_Delay 20 (snd (tm1638_scan_buttons w)))
        \<and> pin_in w' = pin_in (HAL_Delay 20 (snd (tm1638_scan_buttons w)))"
      by (rule 1(1))
    then show ?thesis
      by (simp add: HAL_Delay_frame scan_buttons_frame)
  next
    case True
    with 1(2) have "w' = snd (tm1638_scan_buttons w)"
      by (simp add: Let_def)
    then show ?thesis
      by (simp add: scan_buttons_frame)
  qed
qed

lemma read_key_blocking_SomeD:
  assumes "tm1638_read_key_blocking w = Some (key, w')"
  obtains buttons w1 where "wait_key_press w = Some (buttons, w1)"
    and "wait_key_release w1 = Some w'" and "key = key_number_loop 0 buttons"
  using assms unfolding tm1638_read_key_blocking_def
  by (auto split: option.splits)

text \<open>
  C10. Whenever \<open>tm1638_read_key_blocking\<close> returns, its result is in [1,8]: the mask
  captured by the press-detection loop is not 0, the result is the 1-based position of
  its lowest set bit, and so the \<open>return 0\<close> after the conversion loop is never reached.
\<close>

theorem read_key_blocking_range:
  assumes "tm1638_read_key_blocking w = Some (key, w')"
  shows "1 \<le> key \<and> key \<le> 8
    \<and> (\<exists>buttons w1. wait_key_press w = Some (buttons, w1) \<and> buttons \<noteq> 0
          \<and> bit buttons (unat key - 1) \<and> (\<forall>j < unat key - 1. \<not> bit buttons j))"
proof -
  from assms obtain buttons w1 where p: "wait_key_press w = Some (buttons, w1)"
    and k: "key = key_number_loop 0 buttons"
    by (rule read_key_blocking_SomeD)
  from p have nz: "buttons \<noteq> 0"
    by (auto dest: wait_key_press_sound)
  from key_number_loop_range [OF nz] p nz show ?thesis
    unfolding k by blast
qed

lemma wait_key_press_now:
  "fst (tm1638_scan_buttons w) \<noteq> 0 \<Longrightarrow> wait_key_press w = Some (tm1638_scan_buttons w)"
  by (subst wait_key_press.simps) (simp add: Let_def)

lemma wait_key_release_now:
  "fst (tm1638_scan_buttons w) = 0 \<Longrightarrow> wait_key_release w = Some (snd (tm1638_scan_buttons w))"
  by (subst wait_key_release.simps) (simp add: Let_def)

lemma read_key_press_release:
  assumes "fst (tm1638_scan_buttons w) \<noteq> 0"
    and "fst (tm1638_scan_buttons (snd (tm1638_scan_buttons w))) = 0"
  shows "tm1638_read_key_blocking w =
    Some (key_number_loop 0 (fst (tm1638_scan_buttons w)),
          snd (tm1638_scan_buttons (snd (tm1638_scan_buttons w))))"
  unfolding tm1638_read_key_blocking_def
  by (simp add: wait_key_press_now [OF assms(1)] wait_key_release_now [OF assms(2)] split_def)

lemma sampled_word_cong:
  "pin_in w = pin_in w' \<Longrightarrow> reads w = reads w' \<Longrightarrow> sampled_word w = sampled_word w'"
  by (simp add: sampled_word_def)

lemma second_scan:
  "fst (tm1638_scan_buttons (snd (tm1638_scan_buttons w))) =
     decode_keys (sampled_word (w\<lparr>reads := reads w + 32\<rparr>))"
  unfolding scan_buttons_frame(4)
  by (rule arg_cong [where f = decode_keys], rule sampled_word_cong)
     (simp_all add: scan_buttons_frame)

lemma sampled_example_S5:
  "sampled_word (example_world (\<lambda>n. if n = 5 then GPIO_PIN_SET else GPIO_PIN_RESET)) = 0x20"
  by code_simp

lemma sampled_example_S5_next:
  "sampled_word ((example_world (\<lambda>n. if n = 5 then GPIO_PIN_SET else GPIO_PIN_RESET))
     \<lparr>reads := reads (example_world (\<lambda>n. if n = 5 then GPIO_PIN_SET else GPIO_PIN_RESET)) + 32\<rparr>) = 0"
  by code_simp

lemma decode_keys_0x20: "decode_keys 0x20 = 0x10"
  by code_simp

lemma key_number_0x10: "key_number_loop 0 0x10 = 5"
  by code_simp

lemma read_key_example_S5:
  "tm1638_read_key_blocking (example_world (\<lambda>n. if n = 5 then GPIO_PIN_SET else GPIO_PIN_RESET)) =
     Some (5, snd (tm1638_scan_buttons (snd (tm1638_scan_buttons
       (example_world (\<lambda>n. if n = 5 then GPIO_PIN_SET else GPIO_PIN_RESET))))))"
proof -
  let ?W = "example_world (\<lambda>n. if n = 5 then GPIO_PIN_SET else GPIO_PIN_RESET)"
  have 1: "fst (tm1638_scan_buttons ?W) = 0x10"
    by (simp only: scan_buttons_frame(4) sampled_example_S5 decode_keys_0x20)
  have 2: "fst (tm1638_scan_buttons (snd (tm1638_scan_buttons ?W))) = 0"
    by (simp only: second_scan sampled_example_S5_next decode_keys_0)
  from 1 have "fst (tm1638_scan_buttons ?W) \<noteq> 0"
    by simp
  from read_key_press_release [OF this 2] show ?thesis
    by (simp only: 1 key_number_0x10)
qed

theorem read_key_blocking_range_witness:
  "tm1638_read_key_blocking (example_world (\<lambda>n. if n = 5 then GPIO_PIN_SET else GPIO_PIN_RESET)) =
     Some (5, snd (tm1638_scan_buttons (snd (tm1638_scan_buttons
       (example_world (\<lambda>n. if n = 5 then GPIO_PIN_SET else GPIO_PIN_RESET))))))
   \<and> (1 :: uint8_t) \<le> 5 \<and> (5 :: uint8_t) \<le> 8"
  using read_key_blocking_range [OF read_key_example_S5] read_key_example_S5
  by blast

text \<open>When the blocking read returns.\<close>

lemma scan_mask_0: "scan_mask w 0 = fst (tm1638_scan_buttons w)"
  unfolding scan_mask_def scan_buttons_frame(4)
  by (rule arg_cong [where f = decode_keys], rule sampled_word_cong) simp_all

lemma scan_mask_after_scan:
  "scan_mask (HAL_Delay ms (snd (tm1638_scan_buttons w))) k = scan_mask w (Suc k)"
  unfolding scan_mask_def
  by (rule arg_cong [where f = decode_keys], rule sampled_word_cong)
     (simp_all add: HAL_Delay_frame scan_buttons_frame)

lemma reads_after_scan:
  "reads (HAL_Delay ms (snd (tm1638_scan_buttons w))) = reads w + 32"
  by (simp add: HAL_Delay_frame scan_buttons_frame)

lemma wait_key_press_returns:
  assumes "\<forall>k<m. scan_mask w k = 0" and "scan_mask w m \<noteq> 0"
  shows "\<exists>w'. wait_key_press w = Some (scan_mask w m, w')
           \<and> (\<forall>k. scan_mask w' k = scan_mask w (Suc m + k))"
  using assms
proof (induction m arbitrary: w)
  case 0
  then have nz: "fst (tm1638_scan_buttons w) \<noteq> 0"
    by (simp add: scan_mask_0)
  have "wait_key_press w = Some (scan_mask w 0, snd (tm1638_scan_buttons w))"
    using wait_key_press_now [OF nz] by (simp add: scan_mask_0)
  moreover have "\<forall>k. scan_mask (snd (tm1638_scan_buttons w)) k = scan_mask w (Suc 0 + k)"
    unfolding scan_mask_def
    by (intro allI, rule arg_cong [where f = decode_keys], rule sampled_word_cong)
       (simp_all add: scan_buttons_frame)
  ultimately show ?case
    by blast
next
  case (Suc m)
  let ?w1 = "HAL_Delay 20 (snd (tm1638_scan_buttons w))"
  from Suc.prems have z: "fst (tm1638_scan_buttons w) = 0"
    by (simp add: scan_mask_0 [symmetric])
  then have step: "wait_key_press w = wait_key_press ?w1"
    by (subst wait_key_press.simps) (simp add: Let_def)
  from Suc.prems have "\<forall>k<m. scan_mask ?w1 k = 0" and "scan_mask ?w1 m \<noteq> 0"
    by (simp_all add: scan_mask_after_scan)
  then obtain w' where "wait_key_press ?w1 = Some (scan_mask ?w1 m, w')"
    and "\<forall>k. scan_mask w' k = scan_mask ?w1 (Suc m + k)"
    using Suc.IH by blast
  then show ?case
    unfolding step by (simp add: scan_mask_after_scan)
qed

lemma wait_key_release_returns:
  assumes "\<forall>k<n. scan_mask w k \<noteq> 0" and "scan_mask w n = 0"
  shows "\<exists>w'. wait_key_release w = Some w'"
  using assms
proof (induction n arbitrary: w)
  case 0
  then have "fst (tm1638_scan_buttons w) = 0"
    by (simp add: scan_mask_0)
  then show ?case
    by (simp add: wait_key_release_now)
next
  case (Suc n)
  let ?w1 = "HAL_Delay 20 (snd (tm1638_scan_buttons w))"
  from Suc.prems have "fst (tm1638_scan_buttons w) \<noteq> 0"
    by (simp add: scan_mask_0 [symmetric])
  then have step: "wait_key_release w = wait_key_release ?w1"
    by (subst wait_key_release.simps) (simp add: Let_def)
  from Suc.prems have "\<forall>k<n. scan_mask ?w1 k \<noteq> 0" and "scan_mask ?w1 n = 0"
    by (simp_all add: scan_mask_after_scan)
  then show ?case
    unfolding step by (rule Suc.IH)
qed

text \<open>
  If the keypad shows no key for \<open>m\<close> scans, then some key in each of the next
  \<open>n + 1\<close> scans, then none, the blocking read returns the lowest key of the first
  non-empty scan.
\<close>

lemma read_key_blocking_returns:
  assumes "\<forall>k<m. scan_mask w k = 0" and "scan_mask w m \<noteq> 0"
    and "\<forall>k<n. scan_mask w (Suc m + k) \<noteq> 0" and "scan_mask w (Suc m + n) = 0"
  shows "\<exists>w'. tm1638_read_key_blocking w = Some (key_number_loop 0 (scan_mask w m), w')"
proof -
  from wait_key_press_returns [OF assms(1,2)] obtain w1
    where p: "wait_key_press w = Some (scan_mask w m, w1)"
      and k: "\<forall>k. scan_mask w1 k = scan_mask w (Suc m + k)"
    by blast
  from assms(3,4) k have "\<forall>k<n. scan_mask w1 k \<noteq> 0" and "scan_mask w1 n = 0"
    by simp_all
  then obtain w2 where "wait_key_release w1 = Some w2"
    using wait_key_release_returns by blast
  with p show ?thesis
    by (simp add: tm1638_read_key_blocking_def)
qed

lemma sampled_example_S1_S2_next:
  "sampled_word ((example_world (\<lambda>n. if n = 1 \<or> n = 9 then GPIO_PIN_SET else GPIO_PIN_RESET))
     \<lparr>reads := reads (example_world (\<lambda>n. if n = 1 \<or> n = 9 then GPIO_PIN_SET else GPIO_PIN_RESET)) + 32\<rparr>) = 0"
  by code_simp

lemma decode_keys_0x202: "decode_keys 0x202 = 3"
  by code_simp

lemma key_number_3: "key_number_loop 0 3 = 1"
  by code_simp

text \<open>
  C2. The driver's documentation says \<open>tm1638_read_key_blocking\<close> returns 0 when several
  keys are pressed together. It does not: with S1 and S2 down in the first scan (raw bits
  1 and 9) and released in the second, the captured mask is 3 and the result is 1, the
  lowest key.
\<close>

theorem read_key_blocking_two_keys:
  "wait_key_press (example_world (\<lambda>n. if n = 1 \<or> n = 9 then GPIO_PIN_SET else GPIO_PIN_RESET)) =
     Some (3, snd (tm1638_scan_buttons
       (example_world (\<lambda>n. if n = 1 \<or> n = 9 then GPIO_PIN_SET else GPIO_PIN_RESET))))
   \<and> tm1638_read_key_blocking
       (example_world (\<lambda>n. if n = 1 \<or> n = 9 then GPIO_PIN_SET else GPIO_PIN_RESET)) =
     Some (1, snd (tm1638_scan_buttons (snd (tm1638_scan_buttons
       (example_world (\<lambda>n. if n = 1 \<or> n = 9 then GPIO_PIN_SET else GPIO_PIN_RESET))))))"
proof -
  let ?W = "example_world (\<lambda>n. if n = 1 \<or> n = 9 then GPIO_PIN_SET else GPIO_PIN_RESET)"
  have 1: "fst (tm1638_scan_buttons ?W) = 3"
    by (simp only: scan_buttons_frame(4) sampled_example_S1_S2 decode_keys_0x202)
  have 2: "fst (tm1638_scan_buttons (snd (tm1638_scan_buttons ?W))) = 0"
    by (simp only: second_scan sampled_example_S1_S2_next decode_keys_0)
  from 1 have nz: "fst (tm1638_scan_buttons ?W) \<noteq> 0"
    by simp
  have "wait_key_press ?W = Some (tm1638_scan_buttons ?W)"
    using nz by (rule wait_key_press_now)
  then have a: "wait_key_press ?W = Some (3, snd (tm1638_scan_buttons ?W))"
    using 1 by (simp add: prod_eq_iff)
  from read_key_press_release [OF nz 2]
  have b: "tm1638_read_key_blocking ?W =
      Some (1, snd (tm1638_scan_buttons (snd (tm1638_scan_buttons ?W))))"
    by (simp only: 1 key_number_3)
  from a b show ?thesis
    by (rule conjI)
qed

subsection \<open>The handle and its brightness field\<close>

lemma display_clear_loop_tm: "tm (display_clear_loop i w) = tm w"
proof (induction i w rule: display_clear_loop.induct)
  case (1 i w)
  then show ?case
    by (subst display_clear_loop.simps) (simp add: tm1638_send_data_eq)
qed

lemma tm_display_clear: "tm (tm1638_display_clear w) = tm w"
  by (simp add: tm1638_display_clear_def Let_def display_clear_loop_tm tm1638_send_data_eq
      tm1638_send_command_eq pin_defs)

lemma tm_set_segment: "tm (tm1638_set_segment p d w) = tm w"
  by (simp add: tm1638_set_segment_def Let_def tm1638_send_data_eq pin_defs)

lemma tm_set_led: "tm (tm1638_set_led p on w) = tm w"
  by (simp add: tm1638_set_led_def Let_def tm1638_send_data_eq pin_defs)

lemma tm_display_char: "tm (tm1638_display_char p c dot w) = tm w"
  by (simp add: tm1638_display_char_def Let_def tm_set_segment)

lemma display_txt_out_loop_tm: "tm (display_txt_out_loop i buf dots w) = tm w"
proof (induction i buf dots w rule: display_txt_out_loop.induct)
  case (1 i buf dots w)
  then show ?case
    by (subst display_txt_out_loop.simps) (simp add: tm_display_char)
qed

lemma tm_display_txt: "tm (tm1638_display_txt str w) = tm w"
  by (simp add: tm1638_display_txt_def split_def Let_def display_txt_out_loop_tm)

lemma tm_read_key_blocking:
  assumes "tm1638_read_key_blocking w = Some (key, w')"
  shows "tm w' = tm w"
proof -
  from assms obtain buttons w1 where "wait_key_press w = Some (buttons, w1)"
    and "wait_key_release w1 = Some w'"
    by (rule read_key_blocking_SomeD)
  then show ?thesis
    by (auto dest!: wait_key_press_sound wait_key_release_sound)
qed

lemma brightness_set_brightness: "brightness (tm (tm1638_set_brightness b w)) = min b 7"
  by (simp add: tm1638_set_brightness_eq tm1638_send_command_eq)

lemma brightness_init: "brightness (tm (tm1638_init b w)) = b AND 7"
proof -
  have "b AND 7 \<le> 7"
    by (rule word_and_le1)
  then show ?thesis
    by (simp add: tm1638_init_def Let_def brightness_set_brightness tm_display_clear
        DISPLAY_BRIGHTNESS_MASK_def min_def)
qed

text \<open>
  C9. After \<open>tm1638_init\<close> the brightness field is \<open>b & 7\<close>, after
  \<open>tm1638_set_brightness\<close> it is \<open>min(b, 7)\<close>; both are at most 7. Every other public
  function leaves the handle as it is, so a field that is at most 7 stays so
  (for \<open>tm1638_read_key_blocking\<close>, when it returns). The two paths differ on 8: \<open>tm1638_init\<close> stores 0,
  \<open>tm1638_set_brightness\<close> stores 7.
\<close>

theorem brightness_invariant:
  "brightness (tm (tm1638_init b w)) = b AND 0x7
   \<and> brightness (tm (tm1638_init b w)) \<le> 7
   \<and> brightness (tm (tm1638_set_brightness b w)) = min b 7
   \<and> brightness (tm (tm1638_set_brightness b w)) \<le> 7
   \<and> (brightness (tm w) \<le> 7 \<longrightarrow>
        brightness (tm (tm1638_display_clear w)) \<le> 7
      \<and> brightness (tm (tm1638_display_char p c dot w)) \<le> 7
      \<and> brightness (tm (tm1638_display_txt str w)) \<le> 7
      \<and> brightness (tm (tm1638_set_led p on w)) \<le> 7
      \<and> brightness (tm (tm1638_set_segment p d w)) \<le> 7
      \<and> brightness (tm (snd (tm1638_scan_buttons w))) \<le> 7
      \<and> (\<forall>key w'. tm1638_read_key_blocking w = Some (key, w') \<longrightarrow> brightness (tm w') \<le> 7))
   \<and> brightness (tm (tm1638_init 8 w)) = 0
   \<and> brightness (tm (tm1638_set_brightness 8 w)) = 7"
proof -
  have "b AND 7 \<le> 7"
    by (rule word_and_le1)
  then show ?thesis
    by (auto simp: brightness_init brightness_set_brightness tm_display_clear tm_display_char
        tm_display_txt tm_set_led tm_set_segment scan_buttons_frame dest: tm_read_key_blocking)
qed


theorem brightness_invariant_witness:
  "\<forall>w. brightness (tm (tm1638_init 13 w)) = 5
     \<and> brightness (tm (tm1638_set_brightness 13 w)) = 7
     \<and> brightness (tm (tm1638_set_led 3 True (tm1638_set_brightness 13 w))) \<le> 7
     \<and> brightness (tm (tm1638_display_txt ''12.34'' (tm1638_init 13 w))) \<le> 7"
proof (intro allI conjI)
  fix w
  show "brightness (tm (tm1638_init 13 w)) = 5"
    using brightness_invariant [of 13 w] by simp
  show "brightness (tm (tm1638_set_brightness 13 w)) = 7"
    using brightness_invariant [of 13 w] by simp
  have "brightness (tm (tm1638_set_brightness 13 w)) \<le> 7"
    using brightness_invariant [of 13 w] by blast
  with brightness_invariant [of 13 "tm1638_set_brightness 13 w" 3 _ _ _ True]
  show "brightness (tm (tm1638_set_led 3 True (tm1638_set_brightness 13 w))) \<le> 7"
    by blast
  have "brightness (tm (tm1638_init 13 w)) \<le> 7"
    using brightness_invariant [of 13 w] by blast
  with brightness_invariant [of 13 "tm1638_init 13 w" _ _ _ "''12.34''"]
  show "brightness (tm (tm1638_display_txt ''12.34'' (tm1638_init 13 w))) \<le> 7"
    by blast
qed

subsection \<open>Text layout\<close>

text \<open>The two conversions to \<open>int8_t\<close>, and the index the parsing loop starts from.\<close>

lemma to_int8_eq: "to_int8 x = (x + 128) mod 256 - 128"
  by (simp add: to_int8_def sint_sbintrunc' signed_take_bit_eq_take_bit_shift take_bit_eq_mod)

lemma to_int8_id: "- 128 \<le> x \<Longrightarrow> x < 128 \<Longrightarrow> to_int8 x = x"
  unfolding to_int8_eq by simp

lemma to_int8_mod: "to_int8 (x mod 256) = to_int8 x"
  unfolding to_int8_eq by (simp add: mod_add_left_eq)

lemma to_int8_high: "128 \<le> x \<Longrightarrow> x < 256 \<Longrightarrow> to_int8 x = x - 256"
proof -
  assume a: "128 \<le> x" "x < 256"
  have "(x - 128 + 256) mod 256 = (x - 128) mod 256"
    by (rule mod_add_self2)
  moreover have "x - 128 + 256 = x + 128"
    by simp
  ultimately have "(x + 128) mod 256 = (x - 128) mod 256"
    by (simp only:)
  also have "\<dots> = x - 128"
    using a by simp
  finally show ?thesis
    unfolding to_int8_eq by simp
qed

lemma str_idx_lt: "to_int8 (to_int8 (int n) - 1) < int n"
proof -
  define r where "r = int n mod 256"
  have r: "0 \<le> r" "r < 256" "r \<le> int n"
    unfolding r_def by (simp_all add: zmod_le_nonneg_dividend)
  have e: "to_int8 (int n) = to_int8 r"
    unfolding r_def by (simp add: to_int8_mod)
  consider "r < 128" | "r = 128" | "128 < r"
    by linarith
  then show ?thesis
  proof cases
    case 1
    with r have "to_int8 r = r" "to_int8 (r - 1) = r - 1"
      by (simp_all add: to_int8_id)
    with r show ?thesis
      unfolding e by simp
  next
    case 2
    have "to_int8 (to_int8 128 - 1) = 127"
      by (simp add: to_int8_eq)
    with 2 r show ?thesis
      unfolding e by simp
  next
    case 3
    with r have "to_int8 r = r - 256"
      by (simp add: to_int8_high)
    moreover from 3 r have "to_int8 (r - 256 - 1) = r - 256 - 1"
      by (simp add: to_int8_id)
    ultimately show ?thesis
      using r unfolding e by simp
  qed
qed

lemma str_idx_small:
  assumes "length str \<le> 128"
  shows "to_int8 (to_int8 (int (length str)) - 1) = int (length str) - 1"
proof (cases "length str = 128")
  case True
  then show ?thesis
    by (simp add: to_int8_eq)
next
  case False
  with assms have "to_int8 (int (length str)) = int (length str)"
    by (simp add: to_int8_id)
  moreover from False assms have "to_int8 (int (length str) - 1) = int (length str) - 1"
    by (simp add: to_int8_id)
  ultimately show ?thesis
    by simp
qed

lemma display_txt_loop_stop:
  "\<not> (0 \<le> s \<and> 0 \<le> b) \<Longrightarrow> display_txt_loop str s b buf dots = (buf, dots)"
  by (subst display_txt_loop.simps) auto

lemma display_txt_loop_dot:
  "0 \<le> s \<Longrightarrow> 0 \<le> b \<Longrightarrow> str ! nat s = CHR ''.'' \<Longrightarrow>
     display_txt_loop str s b buf dots =
       display_txt_loop str (s - 1) b buf (if b < 7 then dots[nat (b + 1) := True] else dots)"
  by (subst display_txt_loop.simps) simp

lemma display_txt_loop_char:
  "0 \<le> s \<Longrightarrow> 0 \<le> b \<Longrightarrow> str ! nat s \<noteq> CHR ''.'' \<Longrightarrow>
     display_txt_loop str s b buf dots =
       display_txt_loop str (s - 1) (b - 1) (buf[nat b := str ! nat s]) dots"
  by (subst display_txt_loop.simps) simp

lemma display_txt_loop_cells:
  "n \<le> length str \<Longrightarrow> m \<le> 8 \<Longrightarrow> length buf = 9 \<Longrightarrow>
     fst (display_txt_loop str (int n - 1) (int m - 1) buf dots) =
       (let v = filter (\<lambda>c. c \<noteq> CHR ''.'') (take n str); k = min (length v) m
        in take (m - k) buf @ drop (length v - k) v @ drop m buf)"
proof (induction n arbitrary: m buf dots)
  case 0
  then show ?case
    by (simp add: display_txt_loop_stop)
next
  case (Suc n)
  then have n: "n < length str" "n \<le> length str"
    by simp_all
  let ?c = "str ! n"
  let ?v = "filter (\<lambda>c. c \<noteq> CHR ''.'') (take n str)"
  have tk: "take (Suc n) str = take n str @ [?c]"
    using n by (simp add: take_Suc_conv_app_nth)
  show ?case
  proof (cases m)
    case 0
    then show ?thesis
      by (simp add: display_txt_loop_stop)
  next
    case (Suc m')
    then have m': "m' \<le> 8" "m' < length buf"
      using Suc.prems by simp_all
    show ?thesis
    proof (cases "?c = CHR ''.''")
      case True
      then have "display_txt_loop str (int (Suc n) - 1) (int m - 1) buf dots =
          display_txt_loop str (int n - 1) (int m - 1) buf
            (if int m - 1 < 7 then dots[nat (int m - 1 + 1) := True] else dots)"
        using Suc by (subst display_txt_loop_dot) simp_all
      then show ?thesis
        using True Suc.IH [OF n(2) Suc.prems(2,3)] by (simp add: tk)
    next
      case False
      then have "display_txt_loop str (int (Suc n) - 1) (int m - 1) buf dots =
          display_txt_loop str (int n - 1) (int m' - 1) (buf[m' := ?c]) dots"
        using Suc by (subst display_txt_loop_char) simp_all
      moreover have "length (buf[m' := ?c]) = 9"
        using Suc.prems by simp
      ultimately have "fst (display_txt_loop str (int (Suc n) - 1) (int m - 1) buf dots) =
          (let k = min (length ?v) m'
           in take (m' - k) (buf[m' := ?c]) @ drop (length ?v - k) ?v @ drop m' (buf[m' := ?c]))"
        using Suc.IH [OF n(2) m'(1), of "buf[m' := ?c]" dots] by (simp add: Let_def)
      moreover have "drop m' (buf[m' := ?c]) = ?c # drop (Suc m') buf"
        using m'(2) by (simp add: Cons_nth_drop_Suc [symmetric, of m' "buf[m' := ?c]"])
      ultimately show ?thesis
        using False Suc by (simp add: tk Let_def min_def)
    qed
  qed
qed


lemma blank_buf: "''        '' @ [CHR 0x00] = replicate 8 (CHR '' '') @ [CHR 0x00]"
  by (simp add: numeral_eq_Suc)

lemma display_txt_parse_loop:
  "display_txt_parse str =
     display_txt_loop str (to_int8 (to_int8 (int (length str)) - 1)) 7
       (replicate 8 (CHR '' '') @ [CHR 0x00]) (replicate 8 False)"
  by (simp only: display_txt_parse_def Let_def blank_buf)

lemma display_txt_parse_cells:
  assumes "length str \<le> 128"
  shows "take 8 (fst (display_txt_parse str)) =
     (let v = filter (\<lambda>c. c \<noteq> CHR ''.'') str
      in replicate (8 - length v) (CHR '' '') @ drop (length v - 8) v)"
proof -
  let ?v = "filter (\<lambda>c. c \<noteq> CHR ''.'') str"
  let ?k = "min (length ?v) 8"
  let ?buf = "replicate 8 (CHR '' '') @ [CHR 0x00]"
  have "fst (display_txt_parse str) =
      fst (display_txt_loop str (int (length str) - 1) (int 8 - 1) ?buf (replicate 8 False))"
    by (simp add: display_txt_parse_loop str_idx_small [OF assms])
  also have "\<dots> = take (8 - ?k) ?buf @ drop (length ?v - ?k) ?v @ drop 8 ?buf"
    by (subst display_txt_loop_cells) (simp_all add: Let_def)
  finally have e: "fst (display_txt_parse str) =
      (take (8 - ?k) ?buf @ drop (length ?v - ?k) ?v) @ drop 8 ?buf"
    by simp
  have t: "take (8 - ?k) ?buf = replicate (8 - length ?v) (CHR '' '')"
    by (simp add: min_def)
  have d: "drop (length ?v - ?k) ?v = drop (length ?v - 8) ?v"
    by (simp add: min_def)
  have "length (take (8 - ?k) ?buf @ drop (length ?v - ?k) ?v) = 8"
    unfolding t d by (cases "length ?v \<le> 8") simp_all
  then have "take 8 (fst (display_txt_parse str)) =
      take (8 - ?k) ?buf @ drop (length ?v - ?k) ?v"
    unfolding e by simp
  then show ?thesis
    unfolding t d by (simp add: Let_def)
qed

lemma display_txt_truncates_upto_128:
  assumes "8 \<le> length str" and "length str \<le> 128" and "CHR ''.'' \<notin> set str"
  shows "take 8 (fst (display_txt_parse str)) = drop (length str - 8) str"
proof -
  from assms(3) have "filter (\<lambda>c. c \<noteq> CHR ''.'') str = str"
    by (induction str) auto
  with assms(1) display_txt_parse_cells [OF assms(2)] show ?thesis
    by (simp add: Let_def)
qed

lemma display_txt_leading_blank:
  assumes "i < 8 - length (filter (\<lambda>c. c \<noteq> CHR ''.'') str)"
  shows "fst (display_txt_parse str) ! i = CHR '' ''"
proof -
  let ?s = "to_int8 (to_int8 (int (length str)) - 1)"
  let ?buf = "replicate 8 (CHR '' '') @ [CHR 0x00]"
  from assms have i: "i < 8" by simp
  then have buf: "?buf ! i = CHR '' ''"
    by (simp add: nth_append)
  show ?thesis
  proof (cases "?s < 0")
    case True
    then show ?thesis
      using buf by (simp add: display_txt_parse_loop display_txt_loop_stop)
  next
    case False
    define n where "n = nat (?s + 1)"
    let ?v = "filter (\<lambda>c. c \<noteq> CHR ''.'') (take n str)"
    let ?k = "min (length ?v) 8"
    from False str_idx_lt [of "length str"] have n: "n \<le> length str" "?s = int n - 1"
      unfolding n_def by simp_all
    have "length ?v \<le> length (filter (\<lambda>c. c \<noteq> CHR ''.'') str)"
    proof -
      have "filter (\<lambda>c. c \<noteq> CHR ''.'') str = ?v @ filter (\<lambda>c. c \<noteq> CHR ''.'') (drop n str)"
        by (simp flip: filter_append)
      then show ?thesis
        by simp
    qed
    with assms have k: "i < 8 - ?k"
      by simp
    have "fst (display_txt_parse str) =
        fst (display_txt_loop str (int n - 1) (int 8 - 1) ?buf (replicate 8 False))"
      by (simp add: display_txt_parse_loop n(2))
    also have "\<dots> = take (8 - ?k) ?buf @ drop (length ?v - ?k) ?v @ drop 8 ?buf"
      using n(1) by (subst display_txt_loop_cells) (simp_all add: Let_def)
    finally have e: "fst (display_txt_parse str) =
        take (8 - ?k) ?buf @ (drop (length ?v - ?k) ?v @ drop 8 ?buf)" .
    have "i < length (take (8 - ?k) ?buf)"
      using k by simp
    then have "fst (display_txt_parse str) ! i = take (8 - ?k) ?buf ! i"
      unfolding e by (rule nth_append_left)
    also have "\<dots> = ?buf ! i"
      using k by (intro nth_take)
    finally show ?thesis
      using buf by simp
  qed
qed

lemma display_txt_parse_12_34:
  "display_txt_parse ''12.34'' =
     (''    1234'' @ [CHR 0x00], [False, False, False, False, False, False, True, False])"
  by code_simp

text \<open>
  C4. For \<open>"12.34"\<close> the parsing loop leaves the characters 1, 2, 3, 4 in cells 4 to 7 of
  the eight, spaces in cells 0 to 3, and the dot flag on cell 6 only, the cell holding
  \<open>3\<close>. What goes out is eight segment writes: blank to positions 1 to 4, then 0x06,
  0x5B, 0x4F with the decimal point (0xCF) and 0x66.
\<close>

theorem display_txt_12_34:
  "display_txt_parse ''12.34'' =
     (''    1234'' @ [CHR 0x00], [False, False, False, False, False, False, True, False])
   \<and> tm1638_display_txt ''12.34'' w =
      tm1638_set_segment 8 0x66 (tm1638_set_segment 7 0xCF (tm1638_set_segment 6 0x5B
     (tm1638_set_segment 5 0x06 (tm1638_set_segment 4 0x00 (tm1638_set_segment 3 0x00
     (tm1638_set_segment 2 0x00 (tm1638_set_segment 1 0x00 w)))))))"
  unfolding tm1638_display_txt_def display_txt_parse_12_34
  by (simp add: display_txt_out_loop.simps tm1638_display_char_def char_to_segment_code_def)

text \<open>
  C3. The comment in the parsing loop says a dot applies to the character to its left,
  and the documentation of \<open>tm1638_display_txt\<close> shows \<open>"12.34"\<close> as \<open>12.34\<close>. The loop sets
  \<open>dots[buf_idx + 1]\<close>, the cell it filled last, which holds the character after the dot:
  for \<open>"1.2"\<close> the flag is on cell 7, which holds \<open>2\<close>, and cell 6, which holds \<open>1\<close>, has
  none.
\<close>

theorem display_txt_dot_on_following_char:
  "display_txt_parse ''1.2'' =
     (''      12'' @ [CHR 0x00], [False, False, False, False, False, False, False, True])"
  by code_simp

text \<open>
  C5. \<open>int8_t len = strlen(str)\<close> keeps the length modulo 256 only. A dot-free string
  of 129 characters gives \<open>len = -127\<close>, the loop is not entered and all eight cells stay
  blank, where the documentation promises truncation from the left. Up to 128 characters
  the last 8 are kept (\<open>display_txt_truncates_upto_128\<close>), and the leading cells that
  the visible characters do not reach are blank for every input
  (\<open>display_txt_leading_blank\<close>).
\<close>

theorem display_txt_129_chars_blank:
  "display_txt_parse (replicate 121 (CHR ''0'') @ ''12345678'') =
     (''        '' @ [CHR 0x00], [False, False, False, False, False, False, False, False])"
  by code_simp

lemma display_txt_123456789:
  "display_txt_parse ''123456789'' =
     (''23456789'' @ [CHR 0x00], [False, False, False, False, False, False, False, False])"
  by code_simp

end
